theory Spec2Isabelle
  imports
    Main
    "HOL-Library.Sublist"
    "HOL-Library.Char_ord"
    "HOL-Library.List_Lexorder"
begin

section \<open>Python strings\<close>

text \<open>
  A Python \<open>str\<close> is modelled as a \<^typ>\<open>string\<close>; a \<^typ>\<open>char\<close> stands for the
  code point of the same number (U+0000 to U+00FF). The predicates below are the
  restrictions of Python's \<open>str.isspace\<close>, of the line boundaries of
  \<open>str.splitlines\<close> and of \<open>str.lower\<close> to that range.
\<close>

definition is_space :: "char \<Rightarrow> bool" where
  "is_space c =
     (let n = (of_char c :: nat)
      in (9 \<le> n \<and> n \<le> 13) \<or> (28 \<le> n \<and> n \<le> 32) \<or> n = 133 \<or> n = 160)"

definition lstrip :: "string \<Rightarrow> string" where
  "lstrip s = dropWhile is_space s"

definition rstrip :: "string \<Rightarrow> string" where
  "rstrip s = rev (dropWhile is_space (rev s))"

definition strip :: "string \<Rightarrow> string" where
  "strip s = rstrip (lstrip s)"

definition startswith :: "string \<Rightarrow> string \<Rightarrow> bool" where
  "startswith s p = prefix p s"

text \<open>The capital letters of the range are U+0041 to U+005A and U+00C0 to U+00DE
  without U+00D7; the small letter is 32 higher, which sets the bit of weight 32.\<close>

definition lower_char :: "char \<Rightarrow> char" where
  "lower_char c =
     (let n = (of_char c :: nat)
      in if (65 \<le> n \<and> n \<le> 90) \<or> (192 \<le> n \<and> n \<le> 222 \<and> n \<noteq> 215)
         then (case c of Char b0 b1 b2 b3 b4 b5 b6 b7 \<Rightarrow> Char b0 b1 b2 b3 b4 True b6 b7)
         else c)"

definition lower :: "string \<Rightarrow> string" where
  "lower s = map lower_char s"

definition is_linebreak :: "char \<Rightarrow> bool" where
  "is_linebreak c =
     (let n = (of_char c :: nat)
      in (10 \<le> n \<and> n \<le> 13) \<or> (28 \<le> n \<and> n \<le> 30) \<or> n = 133)"

text \<open>\<open>str.splitlines()\<close>: \<open>acc\<close> is the line being read; a carriage return
  followed by a line feed is one boundary; a last line without a boundary is kept
  unless it is empty.\<close>

fun splitlines_from :: "string \<Rightarrow> string \<Rightarrow> string list" where
  "splitlines_from acc [] = (if acc = [] then [] else [acc])"
| "splitlines_from acc [c] =
     (if is_linebreak c then [acc] else [acc @ [c]])"
| "splitlines_from acc (c # d # cs) =
     (if c = CHR 0x0D \<and> d = CHR 0x0A then acc # splitlines_from [] cs
      else if is_linebreak c then acc # splitlines_from [] (d # cs)
      else splitlines_from (acc @ [c]) (d # cs))"

definition splitlines :: "string \<Rightarrow> string list" where
  "splitlines s = splitlines_from [] s"

text \<open>\<open>"\n".join(lines)\<close>.\<close>

fun join_lines :: "string list \<Rightarrow> string" where
  "join_lines [] = []"
| "join_lines [l] = l"
| "join_lines (l # m # ls) = l @ CHR 0x0A # join_lines (m # ls)"

text \<open>Reading a text file with universal newlines: \<open>\r\n\<close> and \<open>\r\<close> are
  read as \<open>\n\<close>.\<close>

fun universal_newlines :: "string \<Rightarrow> string" where
  "universal_newlines [] = []"
| "universal_newlines [c] = (if c = CHR 0x0D then [CHR 0x0A] else [c])"
| "universal_newlines (c # d # cs) =
     (if c = CHR 0x0D \<and> d = CHR 0x0A then CHR 0x0A # universal_newlines cs
      else if c = CHR 0x0D then CHR 0x0A # universal_newlines (d # cs)
      else c # universal_newlines (d # cs))"

section \<open>The deduplicator (dedup\_ids.py)\<close>

text \<open>The loop of \<open>main\<close> over the lines of the file: \<open>seen\<close> is the set of
  identifier lines met so far, \<open>deduped\<close> the lines kept so far.\<close>

fun dedup_loop :: "string set \<Rightarrow> string list \<Rightarrow> string list \<Rightarrow> string list" where
  "dedup_loop seen deduped [] = deduped"
| "dedup_loop seen deduped (line # rest) =
     (if strip line = [] then dedup_loop seen deduped rest
      else if startswith line ''#'' then dedup_loop seen (deduped @ [line]) rest
      else if line \<notin> seen then dedup_loop (insert line seen) (deduped @ [line]) rest
      else dedup_loop seen deduped rest)"

definition dedup_lines :: "string list \<Rightarrow> string list" where
  "dedup_lines text = dedup_loop {} [] text"

text \<open>
  The files of the script and the effects of \<open>main\<close>. A file system maps a path to
  the text of the file there, if any; \<open>read_text\<close> fails on a missing file, as
  \<open>Path.read_text\<close> raises. What \<open>main\<close> prints is kept as a list of messages.
\<close>

datatype path = IDS_PATH | BACKUP_PATH

datatype py_error = OSError | SystemExit string | Exception

datatype dedup_message = NoDuplicates | BackupWritten | LineCounts nat nat

type_synonym 'p fs = "'p \<Rightarrow> string option"

record dedup_run =
  files :: "path fs"
  writes :: "(path \<times> string) list"
  messages :: "dedup_message list"

definition read_text :: "'p fs \<Rightarrow> 'p \<Rightarrow> py_error + string" where
  "read_text fs p =
     (case fs p of None \<Rightarrow> Inl OSError | Some s \<Rightarrow> Inr (universal_newlines s))"

definition write_text :: "'p fs \<Rightarrow> 'p \<Rightarrow> string \<Rightarrow> 'p fs" where
  "write_text fs p s = fs(p \<mapsto> s)"

definition dedup_main :: "path fs \<Rightarrow> py_error + dedup_run" where
  "dedup_main fs =
     (case read_text fs IDS_PATH of
        Inl e \<Rightarrow> Inl e
      | Inr content \<Rightarrow>
          (let text = splitlines content;
               deduped = dedup_lines text
           in if deduped = text
              then Inr \<lparr>files = fs, writes = [], messages = [NoDuplicates]\<rparr>
              else
                (let backup = join_lines text @ [CHR 0x0A];
                     ids = join_lines deduped @ [CHR 0x0A];
                     fs1 = write_text fs BACKUP_PATH backup;
                     fs2 = write_text fs1 IDS_PATH ids
                 in Inr \<lparr>files = fs2,
                          writes = [(BACKUP_PATH, backup), (IDS_PATH, ids)],
                          messages = [BackupWritten,
                                      LineCounts (length text) (length deduped)]\<rparr>)))"





text \<open>The loop without its accumulator, and the first occurrences of a list that
  are not in a given set: both are used to state what the loop computes.\<close>

fun kept :: "string set \<Rightarrow> string list \<Rightarrow> string list" where
  "kept seen [] = []"
| "kept seen (line # rest) =
     (if strip line = [] then kept seen rest
      else if startswith line ''#'' then line # kept seen rest
      else if line \<notin> seen then line # kept (insert line seen) rest
      else kept seen rest)"

fun fresh :: "'a set \<Rightarrow> 'a list \<Rightarrow> 'a list" where
  "fresh seen [] = []"
| "fresh seen (x # xs) =
     (if x \<in> seen then fresh seen xs else x # fresh (insert x seen) xs)"

text \<open>A line holds no line boundary.\<close>

definition no_breaks :: "string \<Rightarrow> bool" where
  "no_breaks l = (filter is_linebreak l = [])"

section \<open>The downloader (download\_cifs.py)\<close>

subsection \<open>Reading the identifier list\<close>

text \<open>Iterating over a text file handle gives its lines with their line feeds (the
  only boundary after the universal-newline translation).\<close>

fun readlines_from :: "string \<Rightarrow> string \<Rightarrow> string list" where
  "readlines_from acc [] = (if acc = [] then [] else [acc])"
| "readlines_from acc (c # cs) =
     (if c = CHR 0x0A then (acc @ [c]) # readlines_from [] cs
      else readlines_from (acc @ [c]) cs)"

definition readlines :: "string \<Rightarrow> string list" where
  "readlines content = readlines_from [] (universal_newlines content)"

text \<open>\<open>iter_material_ids\<close>: the argument is the text of the identifier file,
  \<open>None\<close> when opening or reading it raises \<open>OSError\<close>.\<close>

definition iter_material_ids :: "string option \<Rightarrow> py_error + string list" where
  "iter_material_ids ids_file =
     (case ids_file of
        None \<Rightarrow> Inl (SystemExit ''Failed to read IDs file'')
      | Some content \<Rightarrow>
          (let material_ids =
                 filter (\<lambda>material_id. \<not> (material_id = [] \<or> startswith material_id ''#''))
                        (map strip (readlines content))
           in if material_ids = [] then Inl (SystemExit ''No material IDs found'')
              else Inr material_ids))"

subsection \<open>The log\<close>

text \<open>A row of the CSV log as \<open>csv.DictReader\<close> gives it: the items of a dictionary
  from column names to values. \<open>load_log\<close> takes the rows of the log file, \<open>None\<close>
  when the file is absent or unreadable.\<close>

type_synonym row = "(string \<times> string) list"

definition row_get :: "row \<Rightarrow> string \<Rightarrow> string \<Rightarrow> string" where
  "row_get r k d = (case map_of r k of None \<Rightarrow> d | Some v \<Rightarrow> v)"

definition load_log :: "row list option \<Rightarrow> row list" where
  "load_log log_file = (case log_file of None \<Rightarrow> [] | Some rs \<Rightarrow> rs)"

definition row_key :: "row \<Rightarrow> string" where
  "row_key r = strip (row_get r ''id'' [])"

definition marked_downloaded :: "row \<Rightarrow> bool" where
  "marked_downloaded r =
     (lower (strip (row_get r ''downloaded'' [])) \<in> {''true'', ''1'', ''yes'', ''y''})"

text \<open>The index of \<open>main\<close>: material id to the position of its earliest row. A
  dictionary that only ever gains keys is kept as the list of its items. The
  positions it holds are positions of the log (\<open>index_ok\<close> below), so that
  \<open>log_rows[idx]\<close> never raises \<open>IndexError\<close>.\<close>

fun build_index :: "(string \<times> nat) list \<Rightarrow> nat \<Rightarrow> row list \<Rightarrow> (string \<times> nat) list" where
  "build_index index i [] = index"
| "build_index index i (r # rs) =
     (let material_id = row_key r
      in if material_id \<noteq> [] \<and> map_of index material_id = None
         then build_index (index @ [(material_id, i)]) (Suc i) rs
         else build_index index (Suc i) rs)"

definition previously_downloaded_of :: "(string \<times> nat) list \<Rightarrow> row list \<Rightarrow> string set" where
  "previously_downloaded_of index log_rows =
     set (map fst (filter (\<lambda>(mid, idx). marked_downloaded (log_rows ! idx)) index))"

definition new_row :: "string \<Rightarrow> bool \<Rightarrow> row" where
  "new_row material_id success =
     [(''id'', material_id), (''downloaded'', if success then ''True'' else ''False'')]"

subsection \<open>One download\<close>

text \<open>
  What a task meets: the entries of the output directory as \<open>iterdir\<close> lists them
  (name, is it a file; \<open>None\<close> when creating or listing the directory raises), the
  answer of the server, and whether writing the file succeeds. The digest
  \<open>hashlib.sha1(...).hexdigest()\<close> is a parameter \<open>sha1\<close> of the model.
\<close>

datatype response = Status nat | HTTPError nat | URLError | TimeoutError | OtherError

record task_env =
  listing :: "(string \<times> bool) list option"
  response :: response
  write_ok :: bool

datatype failure =
  HttpStatus nat | HttpError nat | NetworkError | TimedOut | WriteFailed | Unexpected

datatype report = Skip string | Saved string | Fail failure

datatype event =
  Request string | FileWrite string | Report string report | LogWrite "row list"

datatype scan = Exact string | Collision | NoMatch

text \<open>The loop of \<open>resolve_output_path\<close> over the directory: it ends at the first
  file whose lowered name is the lowered target.\<close>

fun scan_dir :: "string \<Rightarrow> (string \<times> bool) list \<Rightarrow> scan" where
  "scan_dir target_name [] = NoMatch"
| "scan_dir target_name ((name, is_file) # entries) =
     (if \<not> is_file then scan_dir target_name entries
      else if lower name \<noteq> lower target_name then scan_dir target_name entries
      else if name = target_name then Exact name
      else Collision)"

definition resolve_output_path ::
  "(string \<Rightarrow> string) \<Rightarrow> string \<Rightarrow> (string \<times> bool) list \<Rightarrow> string \<times> bool" where
  "resolve_output_path sha1 material_id entries =
     (let target_name = material_id @ ''.cif''
      in case scan_dir target_name entries of
           Exact name \<Rightarrow> (name, True)
         | NoMatch \<Rightarrow> (target_name, False)
         | Collision \<Rightarrow>
             (let suffix = take 8 (sha1 material_id)
              in (material_id @ ''__casefix-'' @ suffix @ ''.cif'', False)))"

text \<open>\<open>download_cif\<close>: the result (\<open>Inl\<close> when an exception leaves the function)
  and what the task did, in order. \<open>output_path.exists()\<close> is read from the same
  listing: the script never removes a file.\<close>

definition download_cif ::
  "(string \<Rightarrow> string) \<Rightarrow> string \<Rightarrow> task_env \<Rightarrow> (py_error + bool) \<times> event list" where
  "download_cif sha1 material_id env =
     (case listing env of
        None \<Rightarrow> (Inl OSError, [])
      | Some entries \<Rightarrow>
          (let (output_path, already_exists) = resolve_output_path sha1 material_id entries
           in if already_exists \<and> output_path \<in> set (map fst entries)
              then (Inr True, [Report material_id (Skip output_path)])
              else
                (case response env of
                   Status code \<Rightarrow>
                     if code \<noteq> 200
                     then (Inr False,
                           [Request material_id, Report material_id (Fail (HttpStatus code))])
                     else if write_ok env
                     then (Inr True,
                           [Request material_id, FileWrite output_path,
                            Report material_id (Saved output_path)])
                     else (Inr False,
                           [Request material_id, Report material_id (Fail WriteFailed)])
                 | HTTPError code \<Rightarrow>
                     (Inr False,
                      [Request material_id, Report material_id (Fail (HttpError code))])
                 | URLError \<Rightarrow>
                     (Inr False, [Request material_id, Report material_id (Fail NetworkError)])
                 | TimeoutError \<Rightarrow>
                     (Inr False, [Request material_id, Report material_id (Fail TimedOut)])
                 | OtherError \<Rightarrow> (Inl Exception, [Request material_id]))))"

subsection \<open>The main loop\<close>

record dl_state =
  log_rows :: "row list"
  index :: "(string \<times> nat) list"
  downloaded :: nat
  previously_downloaded :: "string set"
  trace :: "event list"

text \<open>The body of the loop over the completed futures, for the task of
  \<open>material_id\<close>; \<open>log\<close> is the truth value of \<open>args.log\<close>.\<close>

definition complete_task ::
  "(string \<Rightarrow> string) \<Rightarrow> bool \<Rightarrow> string \<Rightarrow> task_env \<Rightarrow> dl_state \<Rightarrow> dl_state" where
  "complete_task sha1 log material_id env st =
     (let (result, did) = download_cif sha1 material_id env;
          success = (case result of Inr b \<Rightarrow> b | Inl exc \<Rightarrow> False);
          said = (case result of Inr b \<Rightarrow> []
                  | Inl exc \<Rightarrow> [Report material_id (Fail Unexpected)]);
          st1 = st\<lparr>trace := trace st @ did @ said\<rparr>;
          st2 = (if success
                 then st1\<lparr>downloaded := downloaded st1 + 1,
                         previously_downloaded := insert material_id (previously_downloaded st1)\<rparr>
                 else st1)
      in if log
         then
           (let r = new_row material_id success;
                st3 = (case map_of (index st2) material_id of
                         Some idx \<Rightarrow> st2\<lparr>log_rows := (log_rows st2)[idx := r]\<rparr>
                       | None \<Rightarrow>
                           st2\<lparr>index := index st2 @ [(material_id, length (log_rows st2))],
                               log_rows := log_rows st2 @ [r]\<rparr>)
            in st3\<lparr>trace := trace st3 @ [LogWrite (log_rows st3)]\<rparr>)
         else st2)"

text \<open>The futures in the order in which they complete: each is named by its
  position in \<open>ids_to_process\<close> and comes with what its task met. A run completes
  every future once; the loop is defined for any list of completions, so that the
  state after each completed task is the state of a shorter list.\<close>

fun run_tasks ::
  "(string \<Rightarrow> string) \<Rightarrow> bool \<Rightarrow> string list \<Rightarrow> dl_state \<Rightarrow> (nat \<times> task_env) list \<Rightarrow> dl_state" where
  "run_tasks sha1 log ids_to_process st [] = st"
| "run_tasks sha1 log ids_to_process st ((i, env) # completed) =
     (if i < length ids_to_process
      then run_tasks sha1 log ids_to_process
             (complete_task sha1 log (ids_to_process ! i) env st) completed
      else run_tasks sha1 log ids_to_process st completed)"

record main_env =
  ids_file :: "string option"
  args_log :: bool
  log_file :: "row list option"
  completed :: "(nat \<times> task_env) list"

record dl_run =
  outcome :: "py_error + nat"
  final :: dl_state

definition initial_state :: "row list \<Rightarrow> dl_state" where
  "initial_state rs =
     (let index = build_index [] 0 rs
      in \<lparr>log_rows = rs, index = index, downloaded = 0,
          previously_downloaded = previously_downloaded_of index rs, trace = []\<rparr>)"

definition ids_to_process_of :: "string list \<Rightarrow> dl_state \<Rightarrow> string list" where
  "ids_to_process_of material_ids st =
     filter (\<lambda>mid. mid \<notin> previously_downloaded st) material_ids"

text \<open>
  \<open>main\<close>. \<open>args_log\<close> is the truth value of \<open>args.log\<close> (the argument parser
  always supplies a path, so it is true in every run of the script); \<open>log_file\<close> is
  what \<open>load_log\<close> reads. When \<open>iter_material_ids\<close> raises, nothing has been
  loaded or started yet: the run is given the state of an empty log and an empty
  trace.
\<close>

definition download_main :: "(string \<Rightarrow> string) \<Rightarrow> main_env \<Rightarrow> dl_run" where
  "download_main sha1 env =
     (case iter_material_ids (ids_file env) of
        Inl exc \<Rightarrow> \<lparr>outcome = Inl exc, final = initial_state []\<rparr>
      | Inr material_ids \<Rightarrow>
          (let st0 = initial_state (if args_log env then load_log (log_file env) else []);
               ids_to_process = ids_to_process_of material_ids st0
           in if ids_to_process = [] then \<lparr>outcome = Inr 0, final = st0\<rparr>
              else
                (let st = run_tasks sha1 (args_log env) ids_to_process st0 (completed env);
                     st' = (if args_log env
                            then st\<lparr>trace := trace st @ [LogWrite (log_rows st)]\<rparr> else st)
                 in \<lparr>outcome = Inr (if downloaded st' \<noteq> 0 then 0 else 1), final = st'\<rparr>)))"

subsection \<open>Vocabulary of the properties of the log\<close>




definition task_success :: "(string \<Rightarrow> string) \<Rightarrow> string \<Rightarrow> task_env \<Rightarrow> bool" where
  "task_success sha1 material_id env = (fst (download_cif sha1 material_id env) = Inr True)"

definition task_said :: "(string \<Rightarrow> string) \<Rightarrow> string \<Rightarrow> task_env \<Rightarrow> event list" where
  "task_said sha1 material_id env =
     snd (download_cif sha1 material_id env)
     @ (case fst (download_cif sha1 material_id env) of
          Inr b \<Rightarrow> [] | Inl exc \<Rightarrow> [Report material_id (Fail Unexpected)])"

definition ids_good :: "string list \<Rightarrow> bool" where
  "ids_good ids = (filter (\<lambda>mid. mid = [] \<or> strip mid \<noteq> mid) ids = [])"

definition log_says_downloaded :: "row list \<Rightarrow> string \<Rightarrow> bool" where
  "log_says_downloaded rs X =
     (case find (\<lambda>r. row_key r = X) rs of None \<Rightarrow> False | Some r \<Rightarrow> marked_downloaded r)"

definition rows_of :: "string \<Rightarrow> row list \<Rightarrow> row list" where
  "rows_of X rs = filter (\<lambda>r. row_key r = X) rs"

definition succeeded :: "(string \<Rightarrow> string) \<Rightarrow> string list \<Rightarrow> nat \<times> task_env \<Rightarrow> bool" where
  "succeeded sha1 ids t = (fst t < length ids \<and> task_success sha1 (ids ! fst t) (snd t))"

definition run_ids :: "main_env \<Rightarrow> string list" where
  "run_ids env =
     (case iter_material_ids (ids_file env) of
        Inl exc \<Rightarrow> []
      | Inr mids \<Rightarrow>
          ids_to_process_of mids
            (initial_state (if args_log env then load_log (log_file env) else [])))"

definition tasks_for :: "string list \<Rightarrow> string \<Rightarrow> (nat \<times> task_env) list \<Rightarrow> (nat \<times> task_env) list" where
  "tasks_for ids X cs = filter (\<lambda>t. fst t < length ids \<and> ids ! fst t = X) cs"

definition succeeded_in :: "(string \<Rightarrow> string) \<Rightarrow> main_env \<Rightarrow> string \<Rightarrow> bool" where
  "succeeded_in sha1 env X =
     (let ts = tasks_for (run_ids env) X (completed env)
      in ts \<noteq> [] \<and> filter (\<lambda>t. \<not> task_success sha1 X (snd t)) ts = [])"

section \<open>The presence checker (check\_cifs.py)\<close>

definition CASEFIX_SUFFIX :: string where
  "CASEFIX_SUFFIX = ''__casefix-''"

text \<open>\<open>iter_ids\<close>, from the text of the identifier file.\<close>

definition iter_ids :: "string \<Rightarrow> string set" where
  "iter_ids content =
     set (filter (\<lambda>line. line \<noteq> [] \<and> \<not> startswith line ''#'') (map strip (readlines content)))"

text \<open>\<open>str.rfind\<close> of a character, and the \<open>suffix\<close> and \<open>stem\<close> of a file name
  as \<open>pathlib\<close> computes them: the name is cut at its last dot unless that dot is
  the first or the last character.\<close>

definition rfind :: "string \<Rightarrow> char \<Rightarrow> nat option" where
  "rfind s c =
     (if c \<in> set s then Some (length s - 1 - length (takeWhile (\<lambda>x. x \<noteq> c) (rev s)))
      else None)"

definition path_suffix :: "string \<Rightarrow> string" where
  "path_suffix name =
     (case rfind name CHR ''.'' of
        None \<Rightarrow> []
      | Some i \<Rightarrow> if 0 < i \<and> i < length name - 1 then drop i name else [])"

definition path_stem :: "string \<Rightarrow> string" where
  "path_stem name =
     (case rfind name CHR ''.'' of
        None \<Rightarrow> name
      | Some i \<Rightarrow> if 0 < i \<and> i < length name - 1 then take i name else name)"

text \<open>\<open>sub in s\<close>, and \<open>s.split(sep, 1)[0]\<close> for a non-empty separator.\<close>

fun contains :: "string \<Rightarrow> string \<Rightarrow> bool" where
  "contains sub [] = (sub = [])"
| "contains sub (c # cs) = (prefix sub (c # cs) \<or> contains sub cs)"

fun before_first :: "string \<Rightarrow> string \<Rightarrow> string" where
  "before_first sep [] = []"
| "before_first sep (c # cs) =
     (if prefix sep (c # cs) then [] else c # before_first sep cs)"

text \<open>\<open>iter_cif_names\<close>: the argument is the listing of the directory (name, is it
  a file), \<open>None\<close> when the directory does not exist.\<close>

definition cif_name :: "string \<Rightarrow> string" where
  "cif_name name =
     (let stem = path_stem name
      in if contains CASEFIX_SUFFIX stem then before_first CASEFIX_SUFFIX stem else stem)"

definition iter_cif_names :: "(string \<times> bool) list option \<Rightarrow> string set" where
  "iter_cif_names directory =
     (case directory of
        None \<Rightarrow> {}
      | Some entries \<Rightarrow>
          set (map (\<lambda>(name, is_file). cif_name name)
                 (filter (\<lambda>(name, is_file). is_file \<and> lower (path_suffix name) = ''.cif'')
                    entries)))"

datatype check_message =
  TotalIds nat | CifsFound nat | MissingCifs "string list" | NoMissing
  | ExtraCifs "string list" | NoExtra | MissingSaved

record check_run =
  missing :: "string list"
  extra :: "string list"
  printed :: "check_message list"
  missing_file :: string

text \<open>\<open>main\<close>: the text of the identifier file (\<open>None\<close> when it cannot be read) and
  the listing of the directory; \<open>missing_file\<close> is the text written to the
  missing-IDs file.\<close>

definition check_main :: "string option \<Rightarrow> (string \<times> bool) list option \<Rightarrow> py_error + check_run" where
  "check_main ids_text directory =
     (case ids_text of
        None \<Rightarrow> Inl OSError
      | Some content \<Rightarrow>
          (let expected = iter_ids content;
               actual = iter_cif_names directory;
               missing_ids = sorted_list_of_set (expected - actual);
               extra_ids = sorted_list_of_set (actual - expected)
           in Inr \<lparr>missing = missing_ids, extra = extra_ids,
                   printed = [TotalIds (card expected), CifsFound (card actual),
                              if missing_ids \<noteq> [] then MissingCifs missing_ids else NoMissing,
                              if extra_ids \<noteq> [] then ExtraCifs extra_ids else NoExtra,
                              MissingSaved],
                   missing_file = join_lines missing_ids\<rparr>))"

text \<open>The claim's words, to compare with \<open>cif_name\<close>: a stem that ends with
  \<open>__casefix-\<close> and hexadecimal digits loses that ending; any other stem is kept.\<close>

definition is_hex :: "char \<Rightarrow> bool" where
  "is_hex c = (c \<in> set ''0123456789abcdefABCDEF'')"

definition strip_casefix_spec :: "string \<Rightarrow> string" where
  "strip_casefix_spec stem =
     (let digits = takeWhile is_hex (rev stem);
          rest = rev (dropWhile is_hex (rev stem))
      in if digits \<noteq> [] \<and> suffix CASEFIX_SUFFIX rest
         then take (length rest - length CASEFIX_SUFFIX) rest else stem)"

section \<open>The scraper (download\_cif\_list.py)\<close>

text \<open>
  A fetched page, as far as the loop reads it: for every \<open>tbody tr\<close> the \<open>href\<close>
  values of the anchors in its header cell, in document order, and the
  ``next page'' link, if there is one, with the classes of the list item around it
  (\<open>None\<close> when no list item encloses it).
\<close>

datatype next_link = NextLink "string list option"

record page =
  rows :: "string list list"
  next_btn :: "next_link option"

datatype fetched = RequestFailed | Fetched page

datatype stop = NoRows | NoLinks | NoNextButton | LastPage

text \<open>\<open>a["href"].split("/material/")[1]\<close>: what stands between the first and the
  second \<open>/material/\<close> of the link.\<close>

fun after_first :: "string \<Rightarrow> string \<Rightarrow> string" where
  "after_first sep [] = []"
| "after_first sep (c # cs) =
     (if prefix sep (c # cs) then drop (length sep) (c # cs) else after_first sep cs)"

definition material_id_of :: "string \<Rightarrow> string" where
  "material_id_of href = before_first ''/material/'' (after_first ''/material/'' href)"

text \<open>\<open>row.select_one("th a[href*='/material/']")\<close> for every row, the rows without
  such an anchor left out.\<close>

definition page_links :: "page \<Rightarrow> string list" where
  "page_links p = List.map_filter (\<lambda>row. find (contains ''/material/'') row) (rows p)"

text \<open>The loop over the links of a page: \<open>existing\<close> is \<open>existing_ids\<close>, \<open>out\<close> the
  lines appended to the output file so far.\<close>

fun write_new :: "string set \<Rightarrow> string list \<Rightarrow> string list \<Rightarrow> string set \<times> string list" where
  "write_new existing out [] = (existing, out)"
| "write_new existing out (href # links) =
     (let material_id = material_id_of href
      in if material_id \<notin> existing
         then write_new (insert material_id existing) (out @ [material_id]) links
         else write_new existing out links)"

record scraper_state =
  page_no :: nat
  existing_ids :: "string set"
  appended :: "string list"
  requests_made :: nat

text \<open>
  The \<open>while True\<close> loop. The server is a function from the number of requests made
  so far and the page asked for to the answer. The loop may run forever (a server
  that always fails, or pages without end), so it is a partial function: \<open>None\<close>
  stands for a loop that never ends.
\<close>

partial_function (option) scrape_loop ::
  "(nat \<Rightarrow> nat \<Rightarrow> fetched) \<Rightarrow> scraper_state \<Rightarrow> (scraper_state \<times> stop) option" where
  "scrape_loop fetch st =
     (case fetch (requests_made st) (page_no st) of
        RequestFailed \<Rightarrow> scrape_loop fetch (st\<lparr>requests_made := Suc (requests_made st)\<rparr>)
      | Fetched p \<Rightarrow>
          (let st1 = st\<lparr>requests_made := Suc (requests_made st)\<rparr>
           in if rows p = [] then Some (st1, NoRows)
              else
                (let links = page_links p
                 in if links = [] then Some (st1, NoLinks)
                    else
                      (let written = write_new (existing_ids st1) (appended st1) links;
                           st2 = st1\<lparr>existing_ids := fst written, appended := snd written\<rparr>
                       in case next_btn p of
                            None \<Rightarrow> Some (st2, NoNextButton)
                          | Some (NextLink parent_li) \<Rightarrow>
                              if (case parent_li of
                                    None \<Rightarrow> False
                                  | Some classes \<Rightarrow> ''disabled'' \<in> set classes)
                              then Some (st2, LastPage)
                              else scrape_loop fetch (st2\<lparr>page_no := Suc (page_no st2)\<rparr>)))))"


text \<open>The vocabulary of the properties: why the loop leaves a page, if it does; the
  identifiers of a page; the state once a page has been processed.\<close>

definition next_disabled :: "next_link \<Rightarrow> bool" where
  "next_disabled n =
     (case n of NextLink None \<Rightarrow> False | NextLink (Some classes) \<Rightarrow> ''disabled'' \<in> set classes)"

definition stop_reason :: "page \<Rightarrow> stop option" where
  "stop_reason p =
     (if rows p = [] then Some NoRows
      else if page_links p = [] then Some NoLinks
      else case next_btn p of
             None \<Rightarrow> Some NoNextButton
           | Some n \<Rightarrow> if next_disabled n then Some LastPage else None)"

definition page_ids :: "page \<Rightarrow> string list" where
  "page_ids p = map material_id_of (page_links p)"

definition after_page :: "page \<Rightarrow> scraper_state \<Rightarrow> scraper_state" where
  "after_page p st =
     st\<lparr>requests_made := Suc (requests_made st),
        existing_ids := existing_ids st \<union> set (page_ids p),
        appended := appended st @ fresh (existing_ids st) (page_ids p)\<rparr>"

text \<open>A server of three pages, the third with its ``next'' link disabled.\<close>

definition three_pages :: "nat \<Rightarrow> nat \<Rightarrow> fetched" where
  "three_pages t n =
     Fetched (if n = 0
              then \<lparr>rows = [[''/material/A'']], next_btn = Some (NextLink (Some [''page-item'']))\<rparr>
              else if n = 1
              then \<lparr>rows = [[''/material/B''], [''/material/A'']],
                    next_btn = Some (NextLink (Some [''page-item'']))\<rparr>
              else \<lparr>rows = [[''/material/C'']],
                    next_btn = Some (NextLink (Some [''page-item'', ''disabled'']))\<rparr>)"

section \<open>Facts about lines and files\<close>

lemma no_breaks_simps:
  "no_breaks []" "no_breaks (c # l) = (\<not> is_linebreak c \<and> no_breaks l)"
  "no_breaks (l @ m) = (no_breaks l \<and> no_breaks m)"
  by (auto simp: no_breaks_def)

lemma linebreak_LF: "is_linebreak (CHR 0x0A)" and linebreak_CR: "is_linebreak (CHR 0x0D)"
  by (simp_all add: is_linebreak_def)

lemma splitlines_from_nonempty: "s \<noteq> [] \<Longrightarrow> splitlines_from acc s \<noteq> []"
  by (induction acc s rule: splitlines_from.induct) auto

lemma splitlines_from_line:
  "no_breaks l \<Longrightarrow>
   splitlines_from acc (l @ CHR 0x0A # rest) = (acc @ l) # splitlines_from [] rest"
proof (induction l arbitrary: acc)
  case Nil
  show ?case using linebreak_LF by (cases rest) auto
next
  case (Cons c l)
  then have c: "\<not> is_linebreak c" and l: "no_breaks l"
    by (simp_all add: no_breaks_simps)
  obtain d r where dr: "l @ CHR 0x0A # rest = d # r"
    by (cases "l @ CHR 0x0A # rest") auto
  have "splitlines_from acc (c # d # r) = splitlines_from (acc @ [c]) (d # r)"
    using c linebreak_CR by auto
  then show ?case
    using Cons.IH [OF l, of "acc @ [c]"] dr by simp
qed

lemma splitlines_join:
  "ls \<noteq> [] \<Longrightarrow> filter (\<lambda>l. \<not> no_breaks l) ls = [] \<Longrightarrow>
   splitlines (join_lines ls @ [CHR 0x0A]) = ls"
proof (induction ls rule: join_lines.induct)
  case 1
  then show ?case by simp
next
  case (2 l)
  then have "no_breaks l" by (simp split: if_splits)
  then show ?case
    using splitlines_from_line [of l "[]" "[]"] by (simp add: splitlines_def)
next
  case (3 l m ls)
  then have l: "no_breaks l" and rest: "filter (\<lambda>l. \<not> no_breaks l) (m # ls) = []"
    by (simp_all split: if_splits)
  have "splitlines (join_lines (m # ls) @ [CHR 0x0A]) = m # ls"
    using 3 rest by simp
  then show ?case
    using splitlines_from_line [OF l, of "[]" "join_lines (m # ls) @ [CHR 0x0A]"]
    by (simp add: splitlines_def)
qed

lemma splitlines_from_no_breaks:
  "no_breaks acc \<Longrightarrow> filter (\<lambda>l. \<not> no_breaks l) (splitlines_from acc s) = []"
  by (induction acc s rule: splitlines_from.induct) (auto simp: no_breaks_simps)

lemma splitlines_no_breaks: "filter (\<lambda>l. \<not> no_breaks l) (splitlines s) = []"
  by (simp add: splitlines_def splitlines_from_no_breaks no_breaks_simps)

lemma universal_newlines_id: "CHR 0x0D \<notin> set s \<Longrightarrow> universal_newlines s = s"
  by (induction s rule: universal_newlines.induct) auto

lemma join_lines_no_CR:
  "filter (\<lambda>l. \<not> no_breaks l) ls = [] \<Longrightarrow> CHR 0x0D \<notin> set (join_lines ls)"
proof (induction ls rule: join_lines.induct)
  case 1
  show ?case by simp
next
  case (2 l)
  then have "no_breaks l" by (simp split: if_splits)
  then show ?case using linebreak_CR by (auto simp: no_breaks_def filter_empty_conv)
next
  case (3 l m ls)
  then have "no_breaks l" and "filter (\<lambda>l. \<not> no_breaks l) (m # ls) = []"
    by (simp_all split: if_splits)
  with 3 show ?case using linebreak_CR by (auto simp: no_breaks_def filter_empty_conv)
qed

lemma read_back_lines:
  assumes "ls \<noteq> []" "filter (\<lambda>l. \<not> no_breaks l) ls = []"
  shows "splitlines (universal_newlines (join_lines ls @ [CHR 0x0A])) = ls"
proof -
  have "CHR 0x0D \<notin> set (join_lines ls @ [CHR 0x0A])"
    using join_lines_no_CR [OF assms(2)] by simp
  then show ?thesis
    using splitlines_join [OF assms] by (simp add: universal_newlines_id)
qed

lemma join_splitlines_from:
  "filter (\<lambda>c. is_linebreak c \<and> c \<noteq> CHR 0x0A) s = [] \<Longrightarrow>
   join_lines (splitlines_from acc (s @ [CHR 0x0A])) = acc @ s"
proof (induction s arbitrary: acc)
  case Nil
  show ?case using linebreak_LF by simp
next
  case (Cons c s)
  obtain d r where dr: "s @ [CHR 0x0A] = d # r"
    by (cases "s @ [CHR 0x0A]") auto
  have rest: "filter (\<lambda>c. is_linebreak c \<and> c \<noteq> CHR 0x0A) s = []"
    using Cons.prems by (simp split: if_splits)
  show ?case
  proof (cases "is_linebreak c")
    case True
    then have c: "c = CHR 0x0A" using Cons.prems by (simp split: if_splits)
    obtain x xs where xs: "splitlines_from [] (d # r) = x # xs"
      using splitlines_from_nonempty [of "d # r" "[]"] by (cases "splitlines_from [] (d # r)") auto
    have "join_lines (x # xs) = s"
      using Cons.IH [OF rest, of "[]"] dr xs by simp
    then show ?thesis
      using c linebreak_LF dr xs by simp
  next
    case False
    then have "c \<noteq> CHR 0x0D" using linebreak_CR by auto
    then show ?thesis
      using False Cons.IH [OF rest, of "acc @ [c]"] dr by simp
  qed
qed

section \<open>Facts about the deduplicator\<close>

lemma dedup_loop_kept: "dedup_loop seen deduped ls = deduped @ kept seen ls"
  by (induction ls arbitrary: seen deduped) auto

lemma dedup_lines_kept: "dedup_lines text = kept {} text"
  by (simp add: dedup_lines_def dedup_loop_kept)










lemma kept_idem: "kept seen (kept seen ls) = kept seen ls"
  by (induction ls arbitrary: seen) auto

lemma kept_idem2: "dedup_lines (dedup_lines ls) = dedup_lines ls"
  by (simp add: dedup_lines_kept kept_idem)


lemma dedup_lines_no_breaks:
  "filter (\<lambda>l. \<not> no_breaks l) ls = [] \<Longrightarrow>
   filter (\<lambda>l. \<not> no_breaks l) (dedup_lines ls) = []"
proof -
  assume a: "filter (\<lambda>l. \<not> no_breaks l) ls = []"
  have "set (kept seen ls) \<subseteq> set ls" for seen
    by (induction ls arbitrary: seen) auto
  then have "set (dedup_lines ls) \<subseteq> set ls"
    by (simp add: dedup_lines_kept)
  with a show ?thesis by (auto simp: filter_empty_conv)
qed

section \<open>Facts about the downloader\<close>

lemma rstrip_no_trailing: "rstrip s \<noteq> [] \<Longrightarrow> \<not> is_space (last (rstrip s))"
proof -
  assume a: "rstrip s \<noteq> []"
  then have ne: "dropWhile is_space (rev s) \<noteq> []" by (simp add: rstrip_def)
  have "last (rstrip s) = hd (dropWhile is_space (rev s))"
    using ne by (simp add: rstrip_def last_rev)
  then show ?thesis using hd_dropWhile [OF ne] by simp
qed

lemma rstrip_id: "s = [] \<or> \<not> is_space (last s) \<Longrightarrow> rstrip s = s"
  by (cases s rule: rev_cases) (auto simp: rstrip_def)

lemma lstrip_id: "s = [] \<or> \<not> is_space (hd s) \<Longrightarrow> lstrip s = s"
  by (cases s) (auto simp: lstrip_def)

lemma hd_rstrip: "rstrip s \<noteq> [] \<Longrightarrow> hd (rstrip s) = hd s"
proof (induction s)
  case Nil
  then show ?case by (simp add: rstrip_def)
next
  case (Cons c s)
  show ?case
  proof (cases "dropWhile is_space (rev s) = []")
    case True
    then show ?thesis using Cons.prems
      by (auto simp: rstrip_def dropWhile_append split: if_splits)
  next
    case False
    then show ?thesis
      by (auto simp: rstrip_def dropWhile_append dest: set_dropWhileD)
  qed
qed

lemma strip_strip: "strip (strip s) = strip s"
proof (cases "strip s = []")
  case True
  have "strip [] = []" by (simp add: strip_def lstrip_def rstrip_def)
  then show ?thesis unfolding True .
next
  case False
  then have ne: "rstrip (lstrip s) \<noteq> []" by (simp add: strip_def)
  then have l: "lstrip s \<noteq> []" by (auto simp: rstrip_def)
  have "\<not> is_space (hd (lstrip s))"
    using l hd_dropWhile [of is_space s] by (simp add: lstrip_def)
  then have "\<not> is_space (hd (strip s))"
    using hd_rstrip [OF ne] by (simp add: strip_def)
  then have "lstrip (strip s) = strip s"
    by (simp add: lstrip_id)
  moreover have "rstrip (strip s) = strip s"
    using rstrip_no_trailing [OF ne] by (simp add: rstrip_id strip_def)
  ultimately show ?thesis by (simp add: strip_def [of "strip s"])
qed

lemma iter_material_ids_stripped:
  "iter_material_ids f = Inr mids \<Longrightarrow> mid \<in> set mids \<Longrightarrow> mid \<noteq> [] \<and> strip mid = mid"
  by (auto simp: iter_material_ids_def Let_def strip_strip split: option.splits if_splits)


















lemma complete_task_nolog:
  "log_rows (complete_task sha1 False mid env st) = log_rows st"
  "index (complete_task sha1 False mid env st) = index st"
  "trace (complete_task sha1 False mid env st) = trace st @ task_said sha1 mid env"
  by (auto simp: complete_task_def task_said_def Let_def
      split: prod.splits sum.splits option.splits)




lemma ids_good_filter: "ids_good ids \<Longrightarrow> ids_good (filter P ids)"
  by (auto simp: ids_good_def filter_empty_conv)

lemma iter_material_ids_good: "iter_material_ids f = Inr mids \<Longrightarrow> ids_good mids"
  using iter_material_ids_stripped [of f mids] by (auto simp: ids_good_def filter_empty_conv)













lemma initial_state_simps:
  "log_rows (initial_state rs) = rs" "trace (initial_state rs) = []"
  "downloaded (initial_state rs) = 0"
  "previously_downloaded (initial_state rs) = previously_downloaded_of (index (initial_state rs)) rs"
  by (simp_all add: initial_state_def Let_def)








lemma run_ids_good: "ids_good (run_ids env)"
proof (cases "iter_material_ids (ids_file env)")
  case (Inl e)
  then show ?thesis by (simp add: run_ids_def ids_good_def)
next
  case (Inr mids)
  then show ?thesis
    using ids_good_filter [OF iter_material_ids_good [OF Inr]]
    by (simp add: run_ids_def ids_to_process_of_def)
qed






text \<open>The three outcomes of the scan of the output directory.\<close>

lemma scan_dir_exact:
  "(target, True) \<in> set entries \<Longrightarrow>
   filter (\<lambda>e. snd e \<and> lower (fst e) = lower target \<and> fst e \<noteq> target) entries = [] \<Longrightarrow>
   scan_dir target entries = Exact target"
  by (induction target entries rule: scan_dir.induct) (auto split: if_splits)

lemma scan_dir_collision:
  "(target, True) \<notin> set entries \<Longrightarrow>
   filter (\<lambda>e. snd e \<and> lower (fst e) = lower target) entries \<noteq> [] \<Longrightarrow>
   scan_dir target entries = Collision"
  by (induction target entries rule: scan_dir.induct) (auto split: if_splits)

lemma scan_dir_no_match:
  "filter (\<lambda>e. snd e \<and> lower (fst e) = lower target) entries = [] \<Longrightarrow>
   scan_dir target entries = NoMatch"
  by (induction target entries rule: scan_dir.induct) (auto split: if_splits)

lemma download_cif_skip:
  assumes "listing env = Some entries" "(mid @ ''.cif'', True) \<in> set entries"
    and "filter (\<lambda>e. snd e \<and> lower (fst e) = lower (mid @ ''.cif'') \<and> fst e \<noteq> mid @ ''.cif'')
           entries = []"
  shows "download_cif sha1 mid env = (Inr True, [Report mid (Skip (mid @ ''.cif''))])"
proof -
  have "(mid @ ''.cif'') \<in> fst ` set entries"
    using assms(2) by force
  then show ?thesis
    using assms(1) scan_dir_exact [OF assms(2,3)]
    by (simp add: download_cif_def resolve_output_path_def Let_def)
qed

lemma resolve_output_path_collision:
  assumes "(mid @ ''.cif'', True) \<notin> set entries"
    and "filter (\<lambda>e. snd e \<and> lower (fst e) = lower (mid @ ''.cif'')) entries \<noteq> []"
  shows "resolve_output_path sha1 mid entries
         = (mid @ ''__casefix-'' @ take 8 (sha1 mid) @ ''.cif'', False)"
  using scan_dir_collision [OF assms] by (simp add: resolve_output_path_def Let_def)

lemma resolve_output_path_plain:
  assumes "filter (\<lambda>e. snd e \<and> lower (fst e) = lower (mid @ ''.cif'')) entries = []"
  shows "resolve_output_path sha1 mid entries = (mid @ ''.cif'', False)"
  using scan_dir_no_match [OF assms] by (simp add: resolve_output_path_def Let_def)

text \<open>The definitions unfolded to run the downloader on a concrete input.\<close>

lemmas eval_defs = download_main_def iter_material_ids_def readlines_def load_log_def
  initial_state_def ids_to_process_of_def previously_downloaded_of_def complete_task_def
  download_cif_def resolve_output_path_def new_row_def row_key_def row_get_def
  marked_downloaded_def strip_def lstrip_def rstrip_def is_space_def startswith_def
  lower_def lower_char_def Let_def run_ids_def succeeded_def task_success_def
  succeeded_in_def tasks_for_def log_says_downloaded_def rows_of_def

section \<open>Facts about the presence checker\<close>

lemma before_first_absent: "\<not> contains sep s \<Longrightarrow> before_first sep s = s"
  by (induction s) auto

lemma cif_name_eq: "cif_name name = before_first CASEFIX_SUFFIX (path_stem name)"
  by (simp add: cif_name_def Let_def before_first_absent)

lemma iter_cif_names_image:
  "iter_cif_names (Some entries) =
     (\<lambda>name. before_first CASEFIX_SUFFIX (path_stem name)) `
       {name. (name, True) \<in> set entries \<and> lower (path_suffix name) = ''.cif''}"
  by (auto simp: iter_cif_names_def cif_name_eq image_iff)

lemma finite_iter_ids: "finite (iter_ids content)"
  by (simp add: iter_ids_def)

lemma finite_iter_cif_names: "finite (iter_cif_names directory)"
  by (simp add: iter_cif_names_def split: option.splits)

text \<open>The marker does not overlap itself: it ends with the only hyphen it has.\<close>

lemma casefix_no_overlap:
  assumes "prefix CASEFIX_SUFFIX (xs @ CASEFIX_SUFFIX @ h)" "xs \<noteq> []"
  shows "prefix CASEFIX_SUFFIX xs"
proof (rule ccontr)
  assume n: "\<not> prefix CASEFIX_SUFFIX xs"
  from assms(1) n obtain us where us: "CASEFIX_SUFFIX = xs @ us"
    and p: "prefix us (CASEFIX_SUFFIX @ h)"
    by (auto simp: prefix_append)
  have ne: "us \<noteq> []" using us n by auto
  have len: "length us < length CASEFIX_SUFFIX"
    using assms(2) by (simp add: us)
  have "prefix us CASEFIX_SUFFIX"
    using p len by (auto intro: prefix_length_prefix [of us "CASEFIX_SUFFIX @ h" CASEFIX_SUFFIX])
  then have "us = take (length us) CASEFIX_SUFFIX"
    by (metis append_eq_conv_conj prefixE)
  then have "set us \<subseteq> set (take 9 CASEFIX_SUFFIX)"
    using len set_take_subset_set_take [of "length us" 9 CASEFIX_SUFFIX]
    by (simp add: CASEFIX_SUFFIX_def)
  moreover have "last us = CHR ''-''"
    using us ne by (metis CASEFIX_SUFFIX_def last_appendR last.simps list.distinct(1))
  moreover have "last us \<in> set us" using ne by simp
  ultimately show False by (auto simp: CASEFIX_SUFFIX_def)
qed

lemma before_first_casefix:
  "\<not> contains CASEFIX_SUFFIX mid \<Longrightarrow>
   before_first CASEFIX_SUFFIX (mid @ CASEFIX_SUFFIX @ digits) = mid"
proof (induction mid)
  case Nil
  then show ?case by (simp add: CASEFIX_SUFFIX_def)
next
  case (Cons c mid)
  then have np: "\<not> prefix CASEFIX_SUFFIX (c # mid)" and nc: "\<not> contains CASEFIX_SUFFIX mid"
    by simp_all
  have "\<not> prefix CASEFIX_SUFFIX ((c # mid) @ CASEFIX_SUFFIX @ digits)"
    using casefix_no_overlap [of "c # mid" digits] np by blast
  then show ?case using Cons.IH [OF nc] by simp
qed

section \<open>Facts about the scraper\<close>

lemma write_new_fresh:
  "write_new existing out links =
     (existing \<union> set (map material_id_of links), out @ fresh existing (map material_id_of links))"
  by (induction links arbitrary: existing out) (auto simp: Let_def)

lemma page_links_no_rows: "rows p = [] \<Longrightarrow> page_links p = []"
  by (simp add: page_links_def List.map_filter_simps)

lemma scrape_stop:
  assumes "fetch (requests_made st) (page_no st) = Fetched p" "stop_reason p = Some why"
  shows "scrape_loop fetch st = Some (after_page p st, why)"
  using assms
  apply (subst scrape_loop.simps)
  apply (auto simp: stop_reason_def after_page_def page_ids_def write_new_fresh
      page_links_no_rows next_disabled_def Let_def
      split: if_splits option.splits next_link.splits)
  done

lemma scrape_continue:
  assumes "fetch (requests_made st) (page_no st) = Fetched p" "stop_reason p = None"
  shows "scrape_loop fetch st = scrape_loop fetch ((after_page p st)\<lparr>page_no := Suc (page_no st)\<rparr>)"
  using assms
  apply (subst scrape_loop.simps)
  apply (auto simp: stop_reason_def after_page_def page_ids_def write_new_fresh
      next_disabled_def Let_def
      split: if_splits option.splits next_link.splits)
  done

lemma scrape_retry:
  assumes "fetch (requests_made st) (page_no st) = RequestFailed"
  shows "scrape_loop fetch st = scrape_loop fetch (st\<lparr>requests_made := Suc (requests_made st)\<rparr>)"
  using assms by (subst scrape_loop.simps) simp


lemma scrape_only_stops_aux:
  assumes "scrape_loop fetch st = Some y"
  shows "\<exists>t p. fetch t (page_no (fst y)) = Fetched p \<and> stop_reason p = Some (snd y)"
proof (rule scrape_loop.raw_induct
    [where P = "\<lambda>fetch st y. \<exists>t p. fetch t (page_no (fst y)) = Fetched p
                                  \<and> stop_reason p = Some (snd y)", OF _ assms],
    goal_cases)
  case (1 loop fetch st y)
  show ?case
  proof (cases "fetch (requests_made st) (page_no st)")
    case RequestFailed
    then have "loop fetch (st\<lparr>requests_made := Suc (requests_made st)\<rparr>) = Some y"
      using 1(2) by simp
    then show ?thesis by (rule 1(1))
  next
    case (Fetched p)
    show ?thesis
    proof (cases "stop_reason p")
      case None
      then have "loop fetch ((after_page p st)\<lparr>page_no := Suc (page_no st)\<rparr>) = Some y"
        using 1(2) Fetched
        by (auto simp: stop_reason_def after_page_def page_ids_def write_new_fresh
            next_disabled_def Let_def
            split: if_splits option.splits next_link.splits)
      then show ?thesis by (rule 1(1))
    next
      case (Some why)
      then have "y = (after_page p st, why)"
        using 1(2) Fetched
        by (auto simp: stop_reason_def after_page_def page_ids_def write_new_fresh
            page_links_no_rows next_disabled_def Let_def
            split: if_splits option.splits next_link.splits)
      then show ?thesis
        using Fetched Some by (auto simp: after_page_def)
    qed
  qed
qed

lemma fresh_append: "fresh seen (xs @ ys) = fresh seen xs @ fresh (seen \<union> set xs) ys"
  by (induction xs arbitrary: seen) (auto simp: insert_absorb)

lemma scrape_three_pages:
  assumes f1: "\<forall>t. fetch t (page_no st) = Fetched p1"
    and f2: "\<forall>t. fetch t (Suc (page_no st)) = Fetched p2"
    and f3: "\<forall>t. fetch t (Suc (Suc (page_no st))) = Fetched p3"
    and s1: "stop_reason p1 = None" and s2: "stop_reason p2 = None"
    and s3: "stop_reason p3 = Some LastPage"
  shows "\<exists>st'. scrape_loop fetch st = Some (st', LastPage)
     \<and> page_no st' = page_no st + 2
     \<and> requests_made st' = requests_made st + 3
     \<and> appended st' = appended st
          @ fresh (existing_ids st) (page_ids p1 @ page_ids p2 @ page_ids p3)
     \<and> existing_ids st' = existing_ids st \<union> set (page_ids p1 @ page_ids p2 @ page_ids p3)"
proof -
  define a where "a = (after_page p1 st)\<lparr>page_no := Suc (page_no st)\<rparr>"
  define b where "b = (after_page p2 a)\<lparr>page_no := Suc (page_no a)\<rparr>"
  have "scrape_loop fetch st = scrape_loop fetch a"
    unfolding a_def using f1 s1 by (intro scrape_continue) auto
  also have "\<dots> = scrape_loop fetch b"
    unfolding b_def using f2 s2 by (intro scrape_continue) (auto simp: a_def after_page_def)
  also have "\<dots> = Some (after_page p3 b, LastPage)"
    using f3 s3 by (intro scrape_stop) (auto simp: a_def b_def after_page_def)
  finally show ?thesis
    by (auto simp: a_def b_def after_page_def fresh_append Un_assoc)
qed


lemma stop_reason_None:
  "stop_reason p = None \<longleftrightarrow>
     rows p \<noteq> [] \<and> page_links p \<noteq> [] \<and> (\<exists>n. next_btn p = Some n \<and> \<not> next_disabled n)"
  by (auto simp: stop_reason_def split: option.splits)

lemmas scraper_eval = page_links_def page_ids_def material_id_of_def stop_reason_def
  next_disabled_def after_page_def List.map_filter_simps

section \<open>Claims about the deduplicator\<close>


text \<open>
  C7 (as amended). When the deduplicated lines equal the lines of the file, nothing
  is written. Otherwise the backup is written first and the identifier file second;
  the backup holds the lines of the original joined by line feeds with a final line
  feed, so reading it back gives the lines of the original, and it is the original
  text itself when that text ends with a line feed and has no other line boundary.
\<close>

theorem dedup_backup_before_overwrite:
  assumes "fs IDS_PATH = Some content"
  shows "\<exists>r. dedup_main fs = Inr r \<and>
     (let text = splitlines (universal_newlines content);
          backup = join_lines text @ [CHR 0x0A];
          ids = join_lines (dedup_lines text) @ [CHR 0x0A]
      in if dedup_lines text = text
         then files r = fs \<and> writes r = [] \<and> messages r = [NoDuplicates]
         else writes r = [(BACKUP_PATH, backup), (IDS_PATH, ids)]
            \<and> files r = fs(BACKUP_PATH \<mapsto> backup, IDS_PATH \<mapsto> ids)
            \<and> splitlines (universal_newlines backup) = text
            \<and> (if content \<noteq> [] \<and> last content = CHR 0x0A
                    \<and> filter (\<lambda>c. is_linebreak c \<and> c \<noteq> CHR 0x0A) content = []
                then backup = content else True))"
proof -
  define lns where "lns = splitlines (universal_newlines content)"
  define backup where "backup = join_lines lns @ [CHR 0x0A]"
  have nb: "filter (\<lambda>l. \<not> no_breaks l) lns = []"
    by (simp add: lns_def splitlines_no_breaks)
  show ?thesis
  proof (cases "dedup_lines lns = lns")
    case True
    then show ?thesis
      using assms by (simp add: dedup_main_def read_text_def lns_def Let_def)
  next
    case False
    then have ne: "lns \<noteq> []"
      by (auto simp: dedup_lines_def)
    have readback: "splitlines (universal_newlines backup) = lns"
      unfolding backup_def using read_back_lines [OF ne nb] .
    have verb: "backup = content"
      if c: "content \<noteq> []" "last content = CHR 0x0A"
            "filter (\<lambda>c. is_linebreak c \<and> c \<noteq> CHR 0x0A) content = []"
    proof -
      obtain s where s: "content = s @ [CHR 0x0A]"
        using c(1,2) by (metis append_butlast_last_id)
      have f: "filter (\<lambda>c. is_linebreak c \<and> c \<noteq> CHR 0x0A) s = []"
        using c(3) s by simp
      have "CHR 0x0D \<notin> set content"
        using c(3) linebreak_CR by (auto simp: filter_empty_conv)
      then have "universal_newlines content = content"
        by (rule universal_newlines_id)
      then have "join_lines lns = s"
        using join_splitlines_from [OF f, of "[]"] s by (simp add: lns_def splitlines_def)
      then show ?thesis by (simp add: backup_def s)
    qed
    show ?thesis
      using assms False readback verb
      by (simp add: dedup_main_def read_text_def write_text_def Let_def
           lns_def [symmetric] backup_def [symmetric])
  qed
qed

theorem dedup_backup_before_overwrite_witness:
  "(Map.empty(IDS_PATH \<mapsto> ''A\<newline>A\<newline>'')) IDS_PATH = Some ''A\<newline>A\<newline>''
   \<and> (\<exists>r. dedup_main (Map.empty(IDS_PATH \<mapsto> ''A\<newline>A\<newline>'')) = Inr r
        \<and> writes r = [(BACKUP_PATH, ''A\<newline>A\<newline>''), (IDS_PATH, ''A\<newline>'')])"
  using dedup_backup_before_overwrite
          [of "Map.empty(IDS_PATH \<mapsto> ''A\<newline>A\<newline>'')" "''A\<newline>A\<newline>''"]
  by (auto simp: splitlines_def dedup_lines_def is_linebreak_def strip_def lstrip_def
        rstrip_def is_space_def startswith_def Let_def)

text \<open>
  C7 as stated fails: for a file \<open>A\<newline>A\<close> without a final line feed the backup
  is not the original text.
\<close>

theorem dedup_backup_not_verbatim:
  "(case dedup_main (Map.empty(IDS_PATH \<mapsto> ''A\<newline>A'')) of
      Inl e \<Rightarrow> False
    | Inr r \<Rightarrow> writes r = [(BACKUP_PATH, ''A\<newline>A\<newline>''), (IDS_PATH, ''A\<newline>'')])
   \<and> ''A\<newline>A\<newline>'' \<noteq> ''A\<newline>A''"
  by (simp add: dedup_main_def read_text_def write_text_def splitlines_def dedup_lines_def
        is_linebreak_def strip_def lstrip_def rstrip_def is_space_def startswith_def Let_def)

text \<open>
  C6. A file that holds one blank line is rewritten to itself by every run: the
  second run, on the output of the first, again writes a backup and reports the
  rewrite instead of a no-op.
\<close>

theorem dedup_second_run_on_blank_file:
  "(case dedup_main (Map.empty(IDS_PATH \<mapsto> ''\<newline>'')) of
      Inl e \<Rightarrow> False
    | Inr r1 \<Rightarrow>
        writes r1 = [(BACKUP_PATH, ''\<newline>''), (IDS_PATH, ''\<newline>'')]
        \<and> files r1 IDS_PATH = Some ''\<newline>''
        \<and> (case dedup_main (files r1) of
               Inl e \<Rightarrow> False
             | Inr r2 \<Rightarrow>
                 writes r2 = [(BACKUP_PATH, ''\<newline>''), (IDS_PATH, ''\<newline>'')]
                 \<and> messages r2 = [BackupWritten, LineCounts 1 0]))"
  by (simp add: dedup_main_def read_text_def write_text_def splitlines_def dedup_lines_def
        is_linebreak_def strip_def lstrip_def rstrip_def is_space_def Let_def)

text \<open>
  The defect is confined to files whose lines are all blank: when at least one line
  is kept, a second run on the files left by the first finds nothing to do.
\<close>

lemma dedup_second_run_noop:
  assumes "fs IDS_PATH = Some content"
    and "dedup_lines (splitlines (universal_newlines content)) \<noteq> []"
    and "dedup_main fs = Inr r1"
  shows "dedup_main (files r1) = Inr \<lparr>files = files r1, writes = [], messages = [NoDuplicates]\<rparr>"
proof -
  define lns where "lns = splitlines (universal_newlines content)"
  define ids where "ids = join_lines (dedup_lines lns) @ [CHR 0x0A]"
  have nb: "filter (\<lambda>l. \<not> no_breaks l) (dedup_lines lns) = []"
    by (simp add: lns_def splitlines_no_breaks dedup_lines_no_breaks)
  have ne: "dedup_lines lns \<noteq> []"
    using assms(2) by (simp add: lns_def)
  show ?thesis
  proof (cases "dedup_lines lns = lns")
    case True
    then have "r1 = \<lparr>files = fs, writes = [], messages = [NoDuplicates]\<rparr>"
      using assms by (simp add: dedup_main_def read_text_def lns_def Let_def)
    then show ?thesis
      using assms True by (simp add: dedup_main_def read_text_def lns_def Let_def)
  next
    case False
    then have "files r1 IDS_PATH = Some ids"
      using assms by (auto simp: dedup_main_def read_text_def write_text_def Let_def
          lns_def [symmetric] ids_def)
    moreover have "splitlines (universal_newlines ids) = dedup_lines lns"
      unfolding ids_def using read_back_lines [OF ne nb] .
    ultimately show ?thesis
      by (simp add: dedup_main_def read_text_def Let_def kept_idem2)
  qed
qed

section \<open>Claims about the downloader\<close>








text \<open>
  C10. When the identifier file cannot be read, or every line of it is blank or a
  comment once stripped, the run ends with \<open>SystemExit\<close>; nothing was requested,
  written or logged.
\<close>

theorem empty_or_unreadable_ids_exit:
  assumes "ids_file env = None
     \<or> (\<exists>content. ids_file env = Some content
          \<and> filter (\<lambda>l. \<not> (strip l = [] \<or> startswith (strip l) ''#'')) (readlines content) = [])"
  shows "(\<exists>msg. outcome (download_main sha1 env) = Inl (SystemExit msg))
     \<and> trace (final (download_main sha1 env)) = []
     \<and> log_rows (final (download_main sha1 env)) = []"
proof -
  have "\<exists>msg. iter_material_ids (ids_file env) = Inl (SystemExit msg)"
    using assms by (auto simp: iter_material_ids_def Let_def filter_map comp_def)
  then show ?thesis
    by (auto simp: download_main_def initial_state_simps)
qed

theorem empty_or_unreadable_ids_exit_witness:
  "filter (\<lambda>l. \<not> (strip l = [] \<or> startswith (strip l) ''#'')) (readlines ''# c\<newline>\<newline>'') = []
   \<and> outcome (download_main (\<lambda>s. ''0123456789abcdef'')
        \<lparr>ids_file = Some ''# c\<newline>\<newline>'', args_log = True, log_file = None, completed = []\<rparr>)
     = Inl (SystemExit ''No material IDs found'')
   \<and> trace (final (download_main (\<lambda>s. ''0123456789abcdef'')
        \<lparr>ids_file = Some ''# c\<newline>\<newline>'', args_log = True, log_file = None, completed = []\<rparr>))
     = []"
proof -
  let ?env = "\<lparr>ids_file = Some ''# c\<newline>\<newline>'', args_log = True, log_file = None,
                completed = []\<rparr>"
  have h: "filter (\<lambda>l. \<not> (strip l = [] \<or> startswith (strip l) ''#'')) (readlines ''# c\<newline>\<newline>'') = []"
    by (simp add: eval_defs)
  then have "ids_file ?env = None
     \<or> (\<exists>content. ids_file ?env = Some content
          \<and> filter (\<lambda>l. \<not> (strip l = [] \<or> startswith (strip l) ''#'')) (readlines content) = [])"
    by simp
  from empty_or_unreadable_ids_exit [OF this, of "\<lambda>s. ''0123456789abcdef''"] h
  show ?thesis by (auto simp: eval_defs)
qed

text \<open>
  C1. With \<open>abc.cif\<close> listed before \<open>ABC.cif\<close>, the scan for the identifier
  \<open>ABC\<close> stops at \<open>abc.cif\<close>: the file \<open>ABC.cif\<close> is there, yet the identifier
  is requested again and saved under the disambiguated name. With the two entries
  in the other order the identifier is skipped.
\<close>

theorem exact_file_after_other_case_is_downloaded_again:
  "resolve_output_path sha1 ''ABC'' [(''abc.cif'', True), (''ABC.cif'', True)]
     = (''ABC__casefix-'' @ take 8 (sha1 ''ABC'') @ ''.cif'', False)
   \<and> download_cif sha1 ''ABC''
        \<lparr>listing = Some [(''abc.cif'', True), (''ABC.cif'', True)],
         response = Status 200, write_ok = True\<rparr>
     = (Inr True,
        [Request ''ABC'', FileWrite (''ABC__casefix-'' @ take 8 (sha1 ''ABC'') @ ''.cif''),
         Report ''ABC'' (Saved (''ABC__casefix-'' @ take 8 (sha1 ''ABC'') @ ''.cif''))])
   \<and> download_cif sha1 ''ABC''
        \<lparr>listing = Some [(''ABC.cif'', True), (''abc.cif'', True)],
         response = Status 200, write_ok = True\<rparr>
     = (Inr True, [Report ''ABC'' (Skip ''ABC.cif'')])"
  by (simp add: download_cif_def resolve_output_path_def lower_def lower_char_def Let_def)

section \<open>Claims about the presence checker\<close>

text \<open>
  C8 (as amended). The checker reports and writes the identifiers that are expected
  and not present, sorted and without repetition, and reports those present and not
  expected; the file is written also when nothing is missing. The identifiers
  present are the stems of the files whose extension is \<open>.cif\<close> in any case, each
  cut at the first \<open>__casefix-\<close> it holds; for an identifier that does not itself
  hold that marker this removes the disambiguating ending, whatever follows the
  marker.
\<close>

theorem presence_check_reports_differences:
  "(\<exists>r. check_main (Some content) directory = Inr r
       \<and> set (missing r) = iter_ids content - iter_cif_names directory
       \<and> set (extra r) = iter_cif_names directory - iter_ids content
       \<and> sorted (missing r) \<and> distinct (missing r)
       \<and> sorted (extra r) \<and> distinct (extra r)
       \<and> missing_file r = join_lines (missing r))
   \<and> iter_cif_names (Some entries) =
       (\<lambda>name. before_first CASEFIX_SUFFIX (path_stem name)) `
         {name. (name, True) \<in> set entries \<and> lower (path_suffix name) = ''.cif''}
   \<and> iter_cif_names None = {}
   \<and> (\<not> contains CASEFIX_SUFFIX mid \<longrightarrow>
        before_first CASEFIX_SUFFIX (mid @ CASEFIX_SUFFIX @ digits) = mid)"
proof -
  have f1: "finite (iter_ids content - iter_cif_names directory)"
    and f2: "finite (iter_cif_names directory - iter_ids content)"
    by (simp_all add: finite_iter_ids finite_iter_cif_names)
  have "\<exists>r. check_main (Some content) directory = Inr r
       \<and> set (missing r) = iter_ids content - iter_cif_names directory
       \<and> set (extra r) = iter_cif_names directory - iter_ids content
       \<and> sorted (missing r) \<and> distinct (missing r)
       \<and> sorted (extra r) \<and> distinct (extra r)
       \<and> missing_file r = join_lines (missing r)"
    using f1 f2 by (simp add: check_main_def Let_def)
  moreover have "iter_cif_names None = {}"
    by (simp add: iter_cif_names_def)
  ultimately show ?thesis
    using iter_cif_names_image [of entries] before_first_casefix [of mid digits] by blast
qed

theorem presence_check_reports_differences_witness:
  "\<not> contains CASEFIX_SUFFIX ''B''
   \<and> before_first CASEFIX_SUFFIX (''B'' @ CASEFIX_SUFFIX @ ''1a2b3c4d'') = ''B''
   \<and> check_main (Some ''A\<newline>B\<newline>C\<newline>'')
        (Some [(''A.cif'', True), (''B__casefix-1a2b3c4d.CIF'', True), (''notes.txt'', True)])
     = Inr \<lparr>missing = [''C''], extra = [],
            printed = [TotalIds 3, CifsFound 2, MissingCifs [''C''], NoExtra, MissingSaved],
            missing_file = ''C''\<rparr>"
proof -
  have c: "\<not> contains CASEFIX_SUFFIX ''B''"
    by (simp add: CASEFIX_SUFFIX_def)
  have m: "check_main (Some ''A\<newline>B\<newline>C\<newline>'')
        (Some [(''A.cif'', True), (''B__casefix-1a2b3c4d.CIF'', True), (''notes.txt'', True)])
     = Inr \<lparr>missing = [''C''], extra = [],
            printed = [TotalIds 3, CifsFound 2, MissingCifs [''C''], NoExtra, MissingSaved],
            missing_file = ''C''\<rparr>"
    by code_simp
  from presence_check_reports_differences [of "''A\<newline>B\<newline>C\<newline>''" None "[]" "''B''" "''1a2b3c4d''"] c
  have "before_first CASEFIX_SUFFIX (''B'' @ CASEFIX_SUFFIX @ ''1a2b3c4d'') = ''B''"
    by blast
  with c m show ?thesis by blast
qed

text \<open>
  C8 as stated fails: the stem \<open>a__casefix-b__casefix-0123abcd\<close> ends with the marker
  and hexadecimal digits, and without that ending it is \<open>a__casefix-b\<close>; the checker
  takes \<open>a\<close>, so the identifier \<open>a__casefix-b\<close> is reported missing and \<open>a\<close> extra.
\<close>

theorem casefix_split_at_first_marker:
  "iter_cif_names (Some [(''a__casefix-b__casefix-0123abcd.cif'', True)]) = {''a''}
   \<and> strip_casefix_spec (path_stem ''a__casefix-b__casefix-0123abcd.cif'') = ''a__casefix-b''
   \<and> check_main (Some ''a__casefix-b\<newline>'')
        (Some [(''a__casefix-b__casefix-0123abcd.cif'', True)])
     = Inr \<lparr>missing = [''a__casefix-b''], extra = [''a''],
            printed = [TotalIds 1, CifsFound 1, MissingCifs [''a__casefix-b''],
                       ExtraCifs [''a''], MissingSaved],
            missing_file = ''a__casefix-b''\<rparr>"
  by code_simp

section \<open>Claims about the scraper\<close>

text \<open>
  C9 (as amended). Whatever the server answers, the loop ends only on a fetched page
  that gives a reason to stop, and it ends at once on such a page: the page has no
  data row, or no row with a material link, or no ``next'' link, or a ``next'' link
  in a disabled list item. When the first two pages give no reason to stop and the
  third has rows, links and a disabled ``next'' link, the loop ends on the third
  page, and the lines it has appended are the identifiers of the three pages that
  were not known before, each once, in order.
\<close>

theorem pagination_stops:
  "(scrape_loop fetch st = Some (st', why) \<longrightarrow>
      (\<exists>t p. fetch t (page_no st') = Fetched p \<and> stop_reason p = Some why))
   \<and> (fetch (requests_made st) (page_no st) = Fetched p \<and> stop_reason p = Some why' \<longrightarrow>
      scrape_loop fetch st = Some (after_page p st, why'))
   \<and> (stop_reason p = None \<longleftrightarrow>
      rows p \<noteq> [] \<and> page_links p \<noteq> [] \<and> (\<exists>n. next_btn p = Some n \<and> \<not> next_disabled n))
   \<and> ((\<forall>t. fetch t (page_no st) = Fetched p1)
       \<and> (\<forall>t. fetch t (page_no st + 1) = Fetched p2)
       \<and> (\<forall>t. fetch t (page_no st + 2) = Fetched p3)
       \<and> stop_reason p1 = None \<and> stop_reason p2 = None
       \<and> rows p3 \<noteq> [] \<and> page_links p3 \<noteq> []
       \<and> next_btn p3 = Some n3 \<and> next_disabled n3 \<longrightarrow>
      (\<exists>st3. scrape_loop fetch st = Some (st3, LastPage)
         \<and> page_no st3 = page_no st + 2
         \<and> appended st3 = appended st
              @ fresh (existing_ids st) (page_ids p1 @ page_ids p2 @ page_ids p3)
         \<and> existing_ids st3
              = existing_ids st \<union> set (page_ids p1 @ page_ids p2 @ page_ids p3)))"
proof (intro conjI impI)
  assume "scrape_loop fetch st = Some (st', why)"
  from scrape_only_stops_aux [OF this]
  show "\<exists>t p. fetch t (page_no st') = Fetched p \<and> stop_reason p = Some why"
    by simp
next
  assume "fetch (requests_made st) (page_no st) = Fetched p \<and> stop_reason p = Some why'"
  then show "scrape_loop fetch st = Some (after_page p st, why')"
    by (simp add: scrape_stop)
next
  show "stop_reason p = None \<longleftrightarrow>
     rows p \<noteq> [] \<and> page_links p \<noteq> [] \<and> (\<exists>n. next_btn p = Some n \<and> \<not> next_disabled n)"
    by (rule stop_reason_None)
next
  assume a: "(\<forall>t. fetch t (page_no st) = Fetched p1)
       \<and> (\<forall>t. fetch t (page_no st + 1) = Fetched p2)
       \<and> (\<forall>t. fetch t (page_no st + 2) = Fetched p3)
       \<and> stop_reason p1 = None \<and> stop_reason p2 = None
       \<and> rows p3 \<noteq> [] \<and> page_links p3 \<noteq> []
       \<and> next_btn p3 = Some n3 \<and> next_disabled n3"
  then have "stop_reason p3 = Some LastPage"
    by (simp add: stop_reason_def)
  with a scrape_three_pages [of fetch st p1 p2 p3]
  show "\<exists>st3. scrape_loop fetch st = Some (st3, LastPage)
         \<and> page_no st3 = page_no st + 2
         \<and> appended st3 = appended st
              @ fresh (existing_ids st) (page_ids p1 @ page_ids p2 @ page_ids p3)
         \<and> existing_ids st3
              = existing_ids st \<union> set (page_ids p1 @ page_ids p2 @ page_ids p3)"
    by auto
qed

theorem pagination_stops_witness:
  "\<exists>st3. scrape_loop three_pages
            \<lparr>page_no = 0, existing_ids = {}, appended = [], requests_made = 0\<rparr>
          = Some (st3, LastPage)
      \<and> page_no st3 = 2 \<and> appended st3 = [''A'', ''B'', ''C'']"
proof -
  let ?p1 = "\<lparr>rows = [[''/material/A'']], next_btn = Some (NextLink (Some [''page-item'']))\<rparr>"
  let ?p2 = "\<lparr>rows = [[''/material/B''], [''/material/A'']],
              next_btn = Some (NextLink (Some [''page-item'']))\<rparr>"
  let ?p3 = "\<lparr>rows = [[''/material/C'']],
              next_btn = Some (NextLink (Some [''page-item'', ''disabled'']))\<rparr>"
  let ?st = "\<lparr>page_no = 0, existing_ids = {}, appended = [], requests_made = 0\<rparr>"
  have h: "(\<forall>t. three_pages t (page_no ?st) = Fetched ?p1)
       \<and> (\<forall>t. three_pages t (page_no ?st + 1) = Fetched ?p2)
       \<and> (\<forall>t. three_pages t (page_no ?st + 2) = Fetched ?p3)
       \<and> stop_reason ?p1 = None \<and> stop_reason ?p2 = None
       \<and> rows ?p3 \<noteq> [] \<and> page_links ?p3 \<noteq> []
       \<and> next_btn ?p3 = Some (NextLink (Some [''page-item'', ''disabled'']))
       \<and> next_disabled (NextLink (Some [''page-item'', ''disabled'']))"
    by (simp add: three_pages_def scraper_eval)
  have ids: "fresh {} (page_ids ?p1 @ page_ids ?p2 @ page_ids ?p3) = [''A'', ''B'', ''C'']"
    by (simp add: scraper_eval)
  from pagination_stops [of three_pages ?st _ _ _ _ ?p1 ?p2 ?p3
      "NextLink (Some [''page-item'', ''disabled''])"] h
  have "\<exists>st3. scrape_loop three_pages ?st = Some (st3, LastPage)
         \<and> page_no st3 = page_no ?st + 2
         \<and> appended st3 = appended ?st
              @ fresh (existing_ids ?st) (page_ids ?p1 @ page_ids ?p2 @ page_ids ?p3)"
    by blast
  then show ?thesis
    by (auto simp: ids numeral_2_eq_2)
qed

text \<open>
  C9 as stated fails: the loop also ends on a page that has a data row and an
  enabled ``next'' link when no row of the page holds a material link.
\<close>

theorem loop_stops_on_page_without_links:
  "scrape_loop
     (\<lambda>t n. Fetched \<lparr>rows = [[''/about'']], next_btn = Some (NextLink (Some [''page-item'']))\<rparr>)
     \<lparr>page_no = 0, existing_ids = {}, appended = [], requests_made = 0\<rparr>
   = Some (\<lparr>page_no = 0, existing_ids = {}, appended = [], requests_made = 1\<rparr>, NoLinks)
   \<and> rows \<lparr>rows = [[''/about'']], next_btn = Some (NextLink (Some [''page-item'']))\<rparr> \<noteq> []
   \<and> \<not> next_disabled (NextLink (Some [''page-item'']))"
proof -
  let ?p = "\<lparr>rows = [[''/about'']], next_btn = Some (NextLink (Some [''page-item'']))\<rparr>"
  let ?st = "\<lparr>page_no = 0, existing_ids = {}, appended = [], requests_made = 0\<rparr>"
  have "stop_reason ?p = Some NoLinks"
    by (simp add: scraper_eval)
  then have "scrape_loop (\<lambda>t n. Fetched ?p) ?st = Some (after_page ?p ?st, NoLinks)"
    by (intro scrape_stop) simp_all
  then show ?thesis
    by (simp add: scraper_eval)
qed

end
